theory Spec2Isabelle
  imports Main "HOL-Library.Sublist" "HOL-Library.Char_ord" "HOL-Library.List_Lexorder"
begin

section \<open>Python strings\<close>

text \<open>
  A Python \<open>str\<close> is modelled as a \<open>string\<close> whose characters are the code points
  below 256; the files and process outputs are the decoded texts. \<open>sorted\<close> on strings
  compares code points lexicographically, which is the order of \<open>Char_ord\<close> and
  \<open>List_Lexorder\<close>.
\<close>

datatype py_error = FileNotFoundError | RuntimeError | ValueError | OSError

text \<open>\<open>str.isspace\<close> on one character: the characters \<open>strip()\<close> and \<open>split()\<close> treat as blank.\<close>

definition is_space :: "char \<Rightarrow> bool" where
  "is_space c = (of_char c \<in> {9, 10, 11, 12, 13, 28, 29, 30, 31, 32, 133, 160 :: nat})"

text \<open>The line boundaries of \<open>str.splitlines\<close>.\<close>

definition is_linebreak :: "char \<Rightarrow> bool" where
  "is_linebreak c = (of_char c \<in> {10, 11, 12, 13, 28, 29, 30, 133 :: nat})"

definition py_strip :: "string \<Rightarrow> string" where
  "py_strip s = rev (dropWhile is_space (rev (dropWhile is_space s)))"

text \<open>\<open>s.split()\<close>: the maximal runs of non-blank characters; \<open>cur\<close> is the run being read.\<close>

fun split_ws :: "string \<Rightarrow> string \<Rightarrow> string list" where
  "split_ws cur [] = (if cur = [] then [] else [cur])"
| "split_ws cur (c # cs) =
     (if is_space c then (if cur = [] then split_ws [] cs else cur # split_ws [] cs)
      else split_ws (cur @ [c]) cs)"

definition py_split :: "string \<Rightarrow> string list" where
  "py_split s = split_ws [] s"

text \<open>\<open>s.split(sep)\<close> for a separator of one character.\<close>

fun split_on :: "char \<Rightarrow> string \<Rightarrow> string \<Rightarrow> string list" where
  "split_on sep cur [] = [cur]"
| "split_on sep cur (c # cs) =
     (if c = sep then cur # split_on sep [] cs else split_on sep (cur @ [c]) cs)"

text \<open>\<open>s.splitlines()\<close>: a carriage return followed by a line feed is one boundary, and a
  boundary at the end of the text opens no further line.\<close>

fun splitlines_from :: "string \<Rightarrow> string \<Rightarrow> string list" where
  "splitlines_from cur [] = (if cur = [] then [] else [cur])"
| "splitlines_from cur [c] = (if is_linebreak c then [cur] else [cur @ [c]])"
| "splitlines_from cur (c # d # cs) =
     (if c = CHR 0x0D \<and> d = CHR 0x0A then cur # splitlines_from [] cs
      else if is_linebreak c then cur # splitlines_from [] (d # cs)
      else splitlines_from (cur @ [c]) (d # cs))"

definition splitlines :: "string \<Rightarrow> string list" where
  "splitlines s = splitlines_from [] s"

text \<open>\<open>sep.join(xs)\<close>.\<close>

fun join :: "string \<Rightarrow> string list \<Rightarrow> string" where
  "join sep [] = []"
| "join sep [x] = x"
| "join sep (x # y # ys) = x @ sep @ join sep (y # ys)"

definition startswith :: "string \<Rightarrow> string \<Rightarrow> bool" where
  "startswith p s = prefix p s"

definition endswith :: "string \<Rightarrow> string \<Rightarrow> bool" where
  "endswith p s = suffix p s"

text \<open>\<open>q in s\<close> on strings: \<open>q\<close> occurs in \<open>s\<close> as a contiguous block.\<close>

fun py_in :: "string \<Rightarrow> string \<Rightarrow> bool" where
  "py_in q [] = (q = [])"
| "py_in q (c # cs) = (prefix q (c # cs) \<or> py_in q cs)"

text \<open>\<open>s.rfind(c)\<close>, with \<open>None\<close> for Python's \<open>-1\<close>.\<close>

fun rfind :: "char \<Rightarrow> string \<Rightarrow> nat option" where
  "rfind c [] = None"
| "rfind c (x # xs) =
     (case rfind c xs of Some i \<Rightarrow> Some (Suc i) | None \<Rightarrow> if x = c then Some 0 else None)"

text \<open>Truthiness of a value that is a string or \<open>None\<close>.\<close>

fun truthy :: "string option \<Rightarrow> bool" where
  "truthy None = False"
| "truthy (Some s) = (s \<noteq> [])"

section \<open>pathlib on POSIX\<close>

text \<open>A pure path: its root (\<open>''''\<close>, \<open>''/''\<close> or \<open>''//''\<close>) and the components after it.\<close>

record path =
  root :: string
  parts :: "string list"

definition splitroot :: "string \<Rightarrow> string \<times> string" where
  "splitroot part =
     (if startswith ''/'' part then
        (let stripped = dropWhile (\<lambda>c. c = CHR ''/'') part
         in if length part - length stripped = 2 then (''//'', stripped) else (''/'', stripped))
      else ('''', part))"

text \<open>\<open>Path(s)\<close>: empty components and \<open>.\<close> are dropped, \<open>..\<close> is kept.\<close>

definition Path :: "string \<Rightarrow> path" where
  "Path s =
     (case splitroot s of
        (r, rel) \<Rightarrow> \<lparr>root = r, parts = filter (\<lambda>x. x \<noteq> [] \<and> x \<noteq> ''.'') (split_on CHR ''/'' [] rel)\<rparr>)"

text \<open>\<open>p / s\<close>: an absolute right operand replaces the left one.\<close>

definition joinpath :: "path \<Rightarrow> string \<Rightarrow> path" where
  "joinpath p s = (let q = Path s in if root q \<noteq> [] then q else p\<lparr>parts := parts p @ parts q\<rparr>)"

definition path_name :: "path \<Rightarrow> string" where
  "path_name p = (if parts p = [] then [] else last (parts p))"

text \<open>\<open>p.stem\<close>: the final component without its last suffix; a dot that leads or ends the
  name starts no suffix.\<close>

definition stem :: "path \<Rightarrow> string" where
  "stem p =
     (let nm = path_name p
      in case rfind CHR ''.'' nm of
           None \<Rightarrow> nm
         | Some i \<Rightarrow> if 0 < i \<and> i < length nm - 1 then take i nm else nm)"

definition path_str :: "path \<Rightarrow> string" where
  "path_str p = (let s = root p @ join ''/'' (parts p) in if s = [] then ''.'' else s)"

text \<open>\<open>p.relative_to(other)\<close>: purely lexical, \<open>ValueError\<close> unless \<open>other\<close> is a prefix.\<close>

definition relative_to :: "path \<Rightarrow> path \<Rightarrow> py_error + path" where
  "relative_to p other =
     (if root p = root other \<and> prefix (parts other) (parts p)
      then Inr \<lparr>root = [], parts = drop (length (parts other)) (parts p)\<rparr>
      else Inl ValueError)"

section \<open>The environment of one run\<close>

text \<open>
  What the program reads from outside: the home directory of a user name (\<open>''''\<close> is the
  current user), which paths are directories, the entry names of a directory, which paths
  exist, the text of a file (or the error \<open>read_text\<close> raises), the variable \<open>TMUX\<close>, and
  what the user picks in the fuzzy finder.
\<close>

record env =
  homedir :: "string \<Rightarrow> string option"
  is_dir :: "path \<Rightarrow> bool"
  scandir :: "path \<Rightarrow> string list"
  path_exists :: "path \<Rightarrow> bool"
  read_text :: "path \<Rightarrow> py_error + string"
  environ_TMUX :: "string option"
  iterfzf :: "string list \<Rightarrow> string \<Rightarrow> string \<Rightarrow> string option"

text \<open>\<open>os.path.expanduser\<close> on one component: unchanged unless it starts with a tilde
  and the user is known; trailing slashes of the home directory are dropped.\<close>

definition os_expanduser :: "env \<Rightarrow> string \<Rightarrow> string" where
  "os_expanduser e p =
     (if \<not> startswith ''~'' p then p
      else case homedir e (drop 1 p) of
             None \<Rightarrow> p
           | Some userhome \<Rightarrow>
               (let h = rev (dropWhile (\<lambda>c. c = CHR ''/'') (rev userhome))
                in if h = [] then ''/'' else h))"

definition expanduser :: "env \<Rightarrow> path \<Rightarrow> py_error + path" where
  "expanduser e p =
     (if root p = [] \<and> parts p \<noteq> [] \<and> take 1 (hd (parts p)) = ''~'' then
        (let h = os_expanduser e (hd (parts p))
         in if take 1 h = ''~'' then Inl RuntimeError
            else Inr ((Path h)\<lparr>parts := parts (Path h) @ tl (parts p)\<rparr>))
      else Inr p)"

text \<open>\<open>p.glob("*")\<close>: every entry of the directory, hidden ones too; nothing when \<open>p\<close> is
  no directory.\<close>

definition glob_star :: "env \<Rightarrow> path \<Rightarrow> path list" where
  "glob_star e p = (if is_dir e p then map (\<lambda>n. p\<lparr>parts := parts p @ [n]\<rparr>) (scandir e p) else [])"

text \<open>The module constants \<open>HOME = Path.home()\<close> and \<open>WITHIN_TMUX\<close>, computed at import.\<close>

record globals =
  HOME :: path
  WITHIN_TMUX :: "string option"

definition module_init :: "env \<Rightarrow> py_error + globals" where
  "module_init e =
     (case expanduser e (Path ''~'') of
        Inl err \<Rightarrow> Inl err
      | Inr h \<Rightarrow> Inr \<lparr>HOME = h, WITHIN_TMUX = environ_TMUX e\<rparr>)"

section \<open>Candidate sources\<close>

subsection \<open>SSH hosts\<close>

text \<open>The loop of \<open>get_ssh_hosts\<close> over the lines of the configuration.\<close>

fun ssh_loop :: "string list \<Rightarrow> string list \<Rightarrow> string list" where
  "ssh_loop [] candidates = candidates"
| "ssh_loop (line # rest) candidates =
     ssh_loop rest
       (if startswith ''Host'' line \<and> \<not> py_in ''*'' line
        then candidates @ drop 1 (py_split line) else candidates)"

definition get_ssh_hosts :: "env \<Rightarrow> globals \<Rightarrow> string \<Rightarrow> py_error + string list" where
  "get_ssh_hosts e g q =
     (case read_text e (joinpath (joinpath (HOME g) ''.ssh'') ''config'') of
        Inl err \<Rightarrow> Inl err
      | Inr text \<Rightarrow>
          (let candidates = ssh_loop (splitlines text) [];
               candidates = (if q \<noteq> [] then filter (py_in q) candidates else candidates)
           in Inr (sort (map (\<lambda>x. ''ssh: '' @ x) candidates))))"

subsection \<open>Local directories\<close>

definition default_candidates :: "string list" where
  "default_candidates = [''~/notes'', ''~/Syncthing'', ''~/scratch'', ''~/code/*'']"

text \<open>The loop over the rule lines. An exclusion line is not skipped by the second test:
  it is also globbed or appended, with its marker as part of the path.\<close>

fun collect :: "env \<Rightarrow> string list \<Rightarrow> path list \<Rightarrow> path set \<Rightarrow> py_error + (path list \<times> path set)" where
  "collect e [] directories excludes = Inr (directories, excludes)"
| "collect e (line # rest) directories excludes =
     (case (if startswith ''!'' line
            then (case expanduser e (Path (drop 1 line)) of
                    Inl err \<Rightarrow> Inl err
                  | Inr p \<Rightarrow> Inr (insert p excludes))
            else Inr excludes) of
        Inl err \<Rightarrow> Inl err
      | Inr excludes' \<Rightarrow>
          (if endswith ''*'' line then
             (case expanduser e (Path (butlast line)) of
                Inl err \<Rightarrow> Inl err
              | Inr p \<Rightarrow> collect e rest (directories @ glob_star e p) excludes')
           else
             (case expanduser e (Path line) of
                Inl err \<Rightarrow> Inl err
              | Inr p \<Rightarrow> collect e rest (directories @ [p]) excludes')))"

definition valid :: "env \<Rightarrow> string \<Rightarrow> path set \<Rightarrow> path \<Rightarrow> bool" where
  "valid e q excludes d =
     (py_in q (stem d) \<and> is_dir e d \<and> \<not> startswith ''.'' (stem d) \<and> d \<notin> excludes)"

definition relative :: "globals \<Rightarrow> path \<Rightarrow> py_error + string" where
  "relative g d = (case relative_to d (HOME g) of Inl err \<Rightarrow> Inl err | Inr r \<Rightarrow> Inr (path_str r))"

text \<open>\<open>map(relative, ...)\<close> as \<open>sorted\<close> consumes it: the first failure ends it.\<close>

fun map_relative :: "globals \<Rightarrow> path list \<Rightarrow> py_error + string list" where
  "map_relative g [] = Inr []"
| "map_relative g (d # ds) =
     (case relative g d of
        Inl err \<Rightarrow> Inl err
      | Inr r \<Rightarrow> (case map_relative g ds of Inl err \<Rightarrow> Inl err | Inr rs \<Rightarrow> Inr (r # rs)))"

text \<open>Lines 88 to 91: the rule file when it exists, the built-in list otherwise.\<close>

definition load_candidates :: "env \<Rightarrow> py_error + string list" where
  "load_candidates e =
     (case expanduser e (Path ''~/.muxer.rc'') of
        Inl err \<Rightarrow> Inl err
      | Inr muxerrc \<Rightarrow>
          (if path_exists e muxerrc
           then (case read_text e muxerrc of
                   Inl err \<Rightarrow> Inl err
                 | Inr text \<Rightarrow> Inr (splitlines text))
           else Inr default_candidates))"

definition get_local_directories :: "env \<Rightarrow> globals \<Rightarrow> string \<Rightarrow> py_error + string list" where
  "get_local_directories e g q =
     (case load_candidates e of
        Inl err \<Rightarrow> Inl err
      | Inr candidates \<Rightarrow>
          (case collect e candidates [] {} of
             Inl err \<Rightarrow> Inl err
           | Inr (directories, excludes) \<Rightarrow>
               (case map_relative g (filter (valid e q excludes) directories) of
                  Inl err \<Rightarrow> Inl err
                | Inr rel_to_home \<Rightarrow> Inr (sort rel_to_home))))"

section \<open>Processes, the selector and the session reconciler\<close>

text \<open>
  What a run does to the outside, in order: the commands it launches, the lines it logs
  and prints, and the calls of the fuzzy finder. A launch answers with the captured
  standard output (or the error \<open>subprocess.run\<close> raises) and may change the world of
  the processes, whose type is left open.
\<close>

datatype event =
  Run "string list"
| Log string
| Print string
| Fzf "string list" string string

record 'w state =
  world :: 'w
  trace :: "event list"

type_synonym 'w proc = "string list \<Rightarrow> 'w \<Rightarrow> (py_error + string) \<times> 'w"

text \<open>Sequencing: an exception ends the rest.\<close>

definition and_then ::
  "(py_error + 'a) \<times> 's \<Rightarrow> ('a \<Rightarrow> 's \<Rightarrow> (py_error + 'b) \<times> 's) \<Rightarrow> (py_error + 'b) \<times> 's" where
  "and_then r f = (case r of (Inl err, s) \<Rightarrow> (Inl err, s) | (Inr x, s) \<Rightarrow> f x s)"

definition subprocess_run :: "'w proc \<Rightarrow> string list \<Rightarrow> 'w state \<Rightarrow> (py_error + string) \<times> 'w state" where
  "subprocess_run proc cmd s =
     (case proc cmd (world s) of
        (r, w) \<Rightarrow> (r, \<lparr>world = w, trace = trace s @ [Run cmd]\<rparr>))"

text \<open>\<open>[c.strip() for c in command if c]\<close>: the filter drops \<open>None\<close> and the empty string,
  and runs before the strip.\<close>

fun clean :: "string option list \<Rightarrow> string list" where
  "clean [] = []"
| "clean (None # cs) = clean cs"
| "clean (Some c # cs) = (if c = [] then clean cs else py_strip c # clean cs)"

definition log_and_run :: "'w proc \<Rightarrow> string option list \<Rightarrow> 'w state \<Rightarrow> (py_error + string) \<times> 'w state" where
  "log_and_run proc cmd s =
     (let cmd' = clean cmd
      in subprocess_run proc cmd'
           (s\<lparr>trace := trace s @ [Log ([CHR 0x60] @ join '' '' cmd' @ [CHR 0x60])]\<rparr>))"

text \<open>
  \<open>re.search(pattern, text)\<close> finding a match, for a pattern of ordinary characters only
  (none of \<open>. ^ $ * + ? { } [ ] \ | ( )\<close>): such a pattern matches itself and nothing else.
\<close>

definition re_search :: "string \<Rightarrow> string \<Rightarrow> bool" where
  "re_search pat text = py_in pat text"

text \<open>
  The pattern is the literal \<open>f"\b{session}\b"\<close>, not a raw one: Python reads \<open>\b\<close> in it as
  the backspace character 0x08, so the pattern is the session name between two
  backspaces. The model covers session names of ordinary characters.
\<close>

definition tmux_has_session :: "'w proc \<Rightarrow> string \<Rightarrow> 'w state \<Rightarrow> (py_error + bool) \<times> 'w state" where
  "tmux_has_session proc session s =
     and_then (subprocess_run proc (py_split ''tmux ls'') s)
       (\<lambda>out s'. (Inr (re_search ([CHR 0x08] @ session @ [CHR 0x08]) out), s'))"

record muxer =
  name :: string
  command :: "string option"
  dir :: "string list"

definition Muxer :: "string \<Rightarrow> string option \<Rightarrow> string option \<Rightarrow> muxer" where
  "Muxer nm cmd d =
     \<lparr>name = nm, command = cmd,
      dir = (case d of None \<Rightarrow> [] | Some d' \<Rightarrow> if d' = [] then [] else [''-c'', d'])\<rparr>"

definition attach :: "'w proc \<Rightarrow> muxer \<Rightarrow> 'w state \<Rightarrow> (py_error + unit) \<times> 'w state" where
  "attach proc m s =
     and_then (log_and_run proc [Some ''tmux'', Some ''attach'', Some ''-t'', Some (name m)] s)
       (\<lambda>out s'. (Inr (), s'))"

definition switch :: "'w proc \<Rightarrow> muxer \<Rightarrow> 'w state \<Rightarrow> (py_error + unit) \<times> 'w state" where
  "switch proc m s =
     and_then (log_and_run proc [Some ''tmux'', Some ''switch-client'', Some ''-t'', Some (name m)] s)
       (\<lambda>out s'. (Inr (), s'))"

definition new_window :: "'w proc \<Rightarrow> globals \<Rightarrow> muxer \<Rightarrow> 'w state \<Rightarrow> (py_error + unit) \<times> 'w state" where
  "new_window proc g m s =
     (if truthy (WITHIN_TMUX g) then
        and_then
          (log_and_run proc
             ([Some ''tmux'', Some ''new-window'', Some ''-n'', Some (name m)]
              @ map Some (dir m) @ [command m]) s)
          (\<lambda>out s'. (Inr (), s'))
      else
        and_then (tmux_has_session proc (name m) s)
          (\<lambda>found s1.
             and_then
               (if \<not> found then
                  log_and_run proc
                    ([Some ''tmux'', Some ''new-session'', Some ''-A'', Some ''-s'', Some (name m)]
                     @ map Some (dir m) @ [command m]) s1
                else (Inr [], s1))
               (\<lambda>out s2. attach proc m s2)))"

definition new_session :: "'w proc \<Rightarrow> globals \<Rightarrow> muxer \<Rightarrow> 'w state \<Rightarrow> (py_error + unit) \<times> 'w state" where
  "new_session proc g m s =
     and_then (tmux_has_session proc (name m) s)
       (\<lambda>found s1.
          and_then
            (if \<not> found then
               log_and_run proc
                 ([Some ''tmux'', Some ''new-session'',
                   Some (if truthy (WITHIN_TMUX g) then ''-d'' else ''-A''),
                   Some ''-s'', Some (name m)]
                  @ map Some (dir m) @ [command m]) s1
             else (Inr [], s1))
            (\<lambda>out s2. if truthy (WITHIN_TMUX g) then switch proc m s2 else attach proc m s2))"

text \<open>The selector \<open>choose\<close> (the name is taken by the binomial coefficient, hence the
  suffix): the fuzzy finder is called for two candidates or more only.\<close>

fun choose_candidate :: "env \<Rightarrow> string list \<Rightarrow> string \<Rightarrow> string \<Rightarrow> 'w state \<Rightarrow> string option \<times> 'w state" where
  "choose_candidate e [] prompt q s = (None, s)"
| "choose_candidate e [only] prompt q s = (Some only, s)"
| "choose_candidate e multi prompt q s =
     (iterfzf e multi prompt q, s\<lparr>trace := trace s @ [Fzf multi prompt q]\<rparr>)"

record args =
  args_query :: string
  args_window :: bool

definition muxer_of :: "globals \<Rightarrow> string \<Rightarrow> muxer" where
  "muxer_of g chosen =
     (if startswith ''ssh: '' chosen then
        (let chosen' = drop 5 chosen
         in Muxer (''SSH_'' @ chosen') (Some ('' ssh '' @ chosen')) None)
      else
        Muxer (path_name (joinpath (HOME g) chosen)) None
          (Some (path_str (joinpath (HOME g) chosen))))"

text \<open>\<open>main\<close> catches nothing: an exception of a candidate source ends the run.\<close>

definition main :: "env \<Rightarrow> 'w proc \<Rightarrow> globals \<Rightarrow> args \<Rightarrow> 'w state \<Rightarrow> (py_error + unit) \<times> 'w state" where
  "main e proc g a s =
     (let q = (if args_query a \<noteq> [] then args_query a else [])
      in case get_ssh_hosts e g q of
           Inl err \<Rightarrow> (Inl err, s)
         | Inr hosts \<Rightarrow>
             (case get_local_directories e g q of
                Inl err \<Rightarrow> (Inl err, s)
              | Inr dirs \<Rightarrow>
                  (let prompt = (if args_window a then ''WINDOW > '' else ''SESSION > '')
                   in case choose_candidate e (hosts @ dirs) prompt ([CHR 0x27] @ q) s of
                        (chosen, s1) \<Rightarrow>
                          (case chosen of
                             None \<Rightarrow> (Inr (), s1\<lparr>trace := trace s1 @ [Print ''Nothing chosen'']\<rparr>)
                           | Some c \<Rightarrow>
                               if c = [] then (Inr (), s1\<lparr>trace := trace s1 @ [Print ''Nothing chosen'']\<rparr>)
                               else if args_window a then new_window proc g (muxer_of g c) s1
                               else new_session proc g (muxer_of g c) s1))))"

section \<open>The specification's words and example runs\<close>

text \<open>A blank token: empty, or whitespace only.\<close>

definition blank :: "string \<Rightarrow> bool" where
  "blank c = list_all is_space c"

text \<open>The command the specification describes: the blank tokens removed, the others
  stripped.\<close>

definition strip_blank_tokens :: "string option list \<Rightarrow> string list" where
  "strip_blank_tokens cmd = map py_strip (filter (\<lambda>c. \<not> blank c) (List.map_filter (\<lambda>t. t) cmd))"

definition is_create :: "event \<Rightarrow> bool" where
  "is_create ev = (case ev of Run cmd \<Rightarrow> ''new-session'' \<in> set cmd | _ \<Rightarrow> False)"

definition is_fzf :: "event \<Rightarrow> bool" where
  "is_fzf ev = (case ev of Fzf c p q \<Rightarrow> True | _ \<Rightarrow> False)"

text \<open>A multiplexer with one live session \<open>proj\<close>: what \<open>tmux ls\<close> prints for it.\<close>

definition tmux_ls_proc :: "unit proc" where
  "tmux_ls_proc cmd w =
     (if cmd = [''tmux'', ''ls'']
      then (Inr ''proj: 1 windows (created Tue Nov  3 10:00:00 2026)\<newline>'', w)
      else (Inr [], w))"

definition start :: "unit state" where
  "start = \<lparr>world = (), trace = []\<rparr>"

definition outside_tmux :: globals where
  "outside_tmux = \<lparr>HOME = Path ''/home/u'', WITHIN_TMUX = None\<rparr>"

text \<open>Lying under the home directory, as \<open>relative_to\<close> decides it: the same root, and the
  components of \<open>HOME\<close> first. The home-relative string of such a path.\<close>

definition under_home :: "globals \<Rightarrow> path \<Rightarrow> bool" where
  "under_home g d = (root d = root (HOME g) \<and> prefix (parts (HOME g)) (parts d))"

definition home_relative :: "globals \<Rightarrow> path \<Rightarrow> string" where
  "home_relative g d = path_str \<lparr>root = [], parts = drop (length (parts (HOME g))) (parts d)\<rparr>"

text \<open>A listed path that is kept: an existing directory whose final segment does not start
  with a dot and whose stem contains the query.\<close>

definition listed_ok :: "env \<Rightarrow> string \<Rightarrow> path \<Rightarrow> bool" where
  "listed_ok e q d = (is_dir e d \<and> \<not> startswith ''.'' (path_name d) \<and> py_in q (stem d))"

text \<open>A path component as a file system has them: not empty, not \<open>.\<close>, without a slash.\<close>

definition component :: "string \<Rightarrow> bool" where
  "component n = (n \<noteq> [] \<and> n \<noteq> ''.'' \<and> CHR ''/'' \<notin> set n)"

definition wf_path :: "path \<Rightarrow> bool" where
  "wf_path p = list_all component (parts p)"

text \<open>
  An example machine: the user's home is \<open>/home/u\<close>, with the directories \<open>notes\<close> and
  \<open>code\<close>; \<open>code\<close> holds the directories \<open>a\<close>, \<open>b\<close>, \<open>proj.v2\<close> and \<open>.git\<close> and the file
  \<open>todo.txt\<close>. The rule file and the SSH configuration are given by their texts, \<open>None\<close>
  when the file is absent.
\<close>

definition example_env :: "string option \<Rightarrow> string option \<Rightarrow> env" where
  "example_env rc cfg =
     \<lparr>homedir = (\<lambda>u. if u = [] then Some ''/home/u'' else None),
      is_dir = (\<lambda>p. p \<in> set (map Path [''/home/u'', ''/home/u/code'', ''/home/u/code/a'',
                  ''/home/u/code/b'', ''/home/u/code/proj.v2'', ''/home/u/code/.git'',
                  ''/home/u/notes'', ''/tmp''])),
      scandir = (\<lambda>p. if p = Path ''/home/u/code''
                  then [''b'', ''a'', ''proj.v2'', ''.git'', ''todo.txt''] else []),
      path_exists = (\<lambda>p. if p = Path ''/home/u/.muxer.rc'' then rc \<noteq> None
                  else if p = Path ''/home/u/.ssh/config'' then cfg \<noteq> None else False),
      read_text = (\<lambda>p. if p = Path ''/home/u/.muxer.rc''
                    then (case rc of None \<Rightarrow> Inl FileNotFoundError | Some t \<Rightarrow> Inr t)
                  else if p = Path ''/home/u/.ssh/config''
                    then (case cfg of None \<Rightarrow> Inl FileNotFoundError | Some t \<Rightarrow> Inr t)
                  else Inl FileNotFoundError),
      environ_TMUX = None,
      iterfzf = (\<lambda>c p q. None)\<rparr>"

definition ssh_config_text :: string where
  "ssh_config_text = ''Host myserver\<newline>  HostName 1.2.3.4\<newline>Host *.internal\<newline>''"

definition unindented_config :: string where
  "unindented_config = ''Host myserver\<newline>HostName 1.2.3.4\<newline>HostKeyAlgorithms ssh-ed25519\<newline>''"

definition plain_rules :: string where
  "plain_rules = ''~/notes\<newline>~/code/b\<newline>/home/u/code/a\<newline>~/code/.git\<newline>~/code/todo.txt\<newline>~/code/proj.v2\<newline>''"

definition exclusion_rules :: string where
  "exclusion_rules = ''~/code/*\<newline>!~/code/b\<newline>''"

section \<open>The process runner\<close>

lemma clean_eq: "clean cmd = map py_strip (filter (\<lambda>c. c \<noteq> []) (List.map_filter (\<lambda>t. t) cmd))"
  by (induction cmd rule: clean.induct) (simp_all add: List.map_filter_simps)

lemma dropWhile_Nil_iff: "dropWhile P xs = [] \<longleftrightarrow> list_all P xs"
  by (induction xs) auto

lemma py_strip_empty_iff: "py_strip c = [] \<longleftrightarrow> blank c"
proof -
  have "py_strip c = [] \<longleftrightarrow> dropWhile is_space (rev (dropWhile is_space c)) = []"
    unfolding py_strip_def by simp
  also have "\<dots> \<longleftrightarrow> list_all is_space (rev (dropWhile is_space c))"
    by (rule dropWhile_Nil_iff)
  also have "\<dots> \<longleftrightarrow> list_all is_space (dropWhile is_space c)"
    by (induction "dropWhile is_space c") (auto simp: list_all_iff)
  also have "\<dots> \<longleftrightarrow> dropWhile is_space (dropWhile is_space c) = []"
    by (rule dropWhile_Nil_iff[symmetric])
  also have "\<dots> \<longleftrightarrow> dropWhile is_space c = []"
    by (simp only: dropWhile_idem)
  also have "\<dots> \<longleftrightarrow> blank c"
    unfolding blank_def by (rule dropWhile_Nil_iff)
  finally show ?thesis .
qed

lemma dropWhile_hd_id: "xs \<noteq> [] \<Longrightarrow> \<not> P (hd xs) \<Longrightarrow> dropWhile P xs = xs"
  by (cases xs) auto

text \<open>Stripping leaves nothing to strip.\<close>

lemma py_strip_idem: "py_strip (py_strip c) = py_strip c"
proof (cases "py_strip c = []")
  case True
  have "py_strip [] = []" unfolding py_strip_def by simp
  then show ?thesis using True by simp
next
  case False
  define d where "d = dropWhile is_space c"
  define r where "r = dropWhile is_space (rev d)"
  have ps: "py_strip c = rev r" by (simp add: py_strip_def d_def r_def)
  have rne: "r \<noteq> []" using False ps by simp
  have dne: "d \<noteq> []" using rne r_def by auto
  have hd_d: "\<not> is_space (hd d)" using dne unfolding d_def by (rule hd_dropWhile)
  have suf: "suffix r (rev d)" unfolding r_def by (rule suffix_dropWhile)
  then obtain pre where pre: "rev d = pre @ r" by (auto simp: suffix_def)
  then have "d = rev r @ rev pre" by (metis rev_append rev_rev_ident)
  then have "hd (rev r) = hd d" using rne by simp
  then have "\<not> is_space (hd (rev r))" using hd_d by simp
  then have 1: "dropWhile is_space (rev r) = rev r"
    using rne by (simp add: dropWhile_hd_id)
  have "\<not> is_space (hd r)" using rne unfolding r_def by (rule hd_dropWhile)
  then have 2: "dropWhile is_space r = r" using rne by (simp add: dropWhile_hd_id)
  have "py_strip (rev r) = rev r"
    unfolding py_strip_def by (simp only: 1 rev_rev_ident 2)
  then show ?thesis using ps by simp
qed

lemma not_blank_strip: "\<not> blank c \<Longrightarrow> \<not> blank (py_strip c)"
  by (metis py_strip_empty_iff py_strip_idem)

lemma clean_no_blank:
  assumes "list_all (\<lambda>c. c = [] \<or> \<not> blank c) (List.map_filter (\<lambda>t. t) cmd)"
  shows "clean cmd = strip_blank_tokens cmd \<and> list_all (\<lambda>c. \<not> blank c) (clean cmd)"
proof -
  define xs where "xs = List.map_filter (\<lambda>t. t) cmd"
  have "\<forall>c \<in> set xs. (c \<noteq> []) = (\<not> blank c)"
    using assms by (auto simp: xs_def[symmetric] list_all_iff blank_def)
  then have f: "filter (\<lambda>c. c \<noteq> []) xs = filter (\<lambda>c. \<not> blank c) xs"
    by (auto intro: filter_cong)
  have 1: "clean cmd = strip_blank_tokens cmd"
    by (simp add: clean_eq strip_blank_tokens_def xs_def[symmetric] f)
  have 2: "list_all (\<lambda>c. \<not> blank c) (strip_blank_tokens cmd)"
    by (simp add: strip_blank_tokens_def list_all_iff not_blank_strip)
  show ?thesis using 1 2 by simp
qed

text \<open>
  Claim C9, as the code has it: \<open>log_and_run\<close> logs the command line and then launches one
  process, whose answer it returns. The command is the token list without the tokens
  that are \<open>None\<close> or the empty string, each of the others stripped. When no token is a
  non-empty run of whitespace, this is the command of the specification (blank tokens
  removed, the others stripped) and no blank token reaches the process.
\<close>

theorem log_and_run_runs_cleaned_command:
  "log_and_run proc cmd s =
     (fst (proc (clean cmd) (world s)),
      \<lparr>world = snd (proc (clean cmd) (world s)),
       trace = trace s @ [Log ([CHR 0x60] @ join '' '' (clean cmd) @ [CHR 0x60]), Run (clean cmd)]\<rparr>)
   \<and> clean cmd = map py_strip (filter (\<lambda>c. c \<noteq> []) (List.map_filter (\<lambda>t. t) cmd))
   \<and> (list_all (\<lambda>c. c = [] \<or> \<not> blank c) (List.map_filter (\<lambda>t. t) cmd) \<longrightarrow>
        clean cmd = strip_blank_tokens cmd \<and> list_all (\<lambda>c. \<not> blank c) (clean cmd))"
proof -
  have "log_and_run proc cmd s =
     (fst (proc (clean cmd) (world s)),
      \<lparr>world = snd (proc (clean cmd) (world s)),
       trace = trace s @ [Log ([CHR 0x60] @ join '' '' (clean cmd) @ [CHR 0x60]), Run (clean cmd)]\<rparr>)"
    by (simp add: log_and_run_def subprocess_run_def Let_def split: prod.splits)
  then show ?thesis
    using clean_eq clean_no_blank by blast
qed

text \<open>The theorem at a command with an empty token, \<open>None\<close> and a token to strip.\<close>

theorem log_and_run_runs_cleaned_command_witness:
  "list_all (\<lambda>c. c = [] \<or> \<not> blank c) (List.map_filter (\<lambda>t. t) [Some ''tmux'', Some [], None, Some '' ssh host''])
   \<and> clean [Some ''tmux'', Some [], None, Some '' ssh host''] = [''tmux'', ''ssh host'']
   \<and> strip_blank_tokens [Some ''tmux'', Some [], None, Some '' ssh host''] = [''tmux'', ''ssh host'']
   \<and> list_all (\<lambda>c. \<not> blank c) (clean [Some ''tmux'', Some [], None, Some '' ssh host''])
   \<and> log_and_run tmux_ls_proc [Some ''tmux'', Some [], None, Some '' ssh host''] \<lparr>world = (), trace = []\<rparr> =
       (Inr [], \<lparr>world = (), trace = [Log ([CHR 0x60] @ ''tmux ssh host'' @ [CHR 0x60]), Run [''tmux'', ''ssh host'']]\<rparr>)"
proof -
  let ?cmd = "[Some ''tmux'', Some [], None, Some '' ssh host'']"
  let ?s = "\<lparr>world = (), trace = []\<rparr> :: unit state"
  note t = log_and_run_runs_cleaned_command [of tmux_ls_proc ?cmd ?s]
  have h: "list_all (\<lambda>c. c = [] \<or> \<not> blank c) (List.map_filter (\<lambda>t. t) ?cmd)"
    by code_simp
  have c: "clean ?cmd = [''tmux'', ''ssh host'']"
    by code_simp
  have p: "tmux_ls_proc [''tmux'', ''ssh host''] () = (Inr [], ())"
    by code_simp
  from t h have e: "clean ?cmd = strip_blank_tokens ?cmd"
    and n: "list_all (\<lambda>c. \<not> blank c) (clean ?cmd)"
    by blast+
  from e c have s: "strip_blank_tokens ?cmd = [''tmux'', ''ssh host'']"
    by simp
  from t have "log_and_run tmux_ls_proc ?cmd ?s =
     (fst (tmux_ls_proc (clean ?cmd) (world ?s)),
      \<lparr>world = snd (tmux_ls_proc (clean ?cmd) (world ?s)),
       trace = trace ?s @ [Log ([CHR 0x60] @ join '' '' (clean ?cmd) @ [CHR 0x60]), Run (clean ?cmd)]\<rparr>)"
    by blast
  then have l: "log_and_run tmux_ls_proc ?cmd ?s =
       (Inr [], \<lparr>world = (), trace = [Log ([CHR 0x60] @ ''tmux ssh host'' @ [CHR 0x60]), Run [''tmux'', ''ssh host'']]\<rparr>)"
    unfolding c by (simp add: p)
  show ?thesis
    using h c s n l by blast
qed

text \<open>
  Claim C9 as stated fails: a token of two spaces passes the filter, which only drops
  what is falsy, and is stripped to the empty string afterwards; the process is launched
  with an empty argument, where the specification's command has none.
\<close>

theorem log_and_run_blank_token_counterexample:
  "clean [Some ''tmux'', Some ''  '', Some ''ls''] = [''tmux'', [], ''ls'']
   \<and> strip_blank_tokens [Some ''tmux'', Some ''  '', Some ''ls''] = [''tmux'', ''ls'']
   \<and> trace (snd (log_and_run tmux_ls_proc [Some ''tmux'', Some ''  '', Some ''ls''] start)) =
       [Log ([CHR 0x60] @ ''tmux  ls'' @ [CHR 0x60]), Run [''tmux'', [], ''ls'']]"
  by code_simp

section \<open>The selector\<close>

text \<open>
  Claim C6: \<open>choose\<close> on the empty list returns no selection and on a single candidate
  returns it, in both cases leaving the outside untouched (no call of the fuzzy finder);
  on two candidates or more it returns what the fuzzy finder returns for the list, the
  prompt and the query, and the run has exactly one more call of the fuzzy finder.
\<close>

theorem choose_candidate_cases:
  "choose_candidate e [] prompt q s = (None, s)
   \<and> choose_candidate e [x] prompt q s = (Some x, s)
   \<and> choose_candidate e (x # y # zs) prompt q s =
       (iterfzf e (x # y # zs) prompt q, s\<lparr>trace := trace s @ [Fzf (x # y # zs) prompt q]\<rparr>)
   \<and> length (filter is_fzf (trace (snd (choose_candidate e (x # y # zs) prompt q s)))) =
       Suc (length (filter is_fzf (trace s)))"
  by (simp add: is_fzf_def)

section \<open>The session reconciler\<close>

text \<open>An output of \<open>tmux ls\<close> without a backspace character never matches the pattern.\<close>

lemma py_in_sublist: "py_in q s \<longleftrightarrow> sublist q s"
  by (induction s) (simp_all add: sublist_Cons_right)

lemma py_in_set: "py_in q s \<Longrightarrow> set q \<subseteq> set s"
  by (simp add: py_in_sublist set_mono_sublist)

lemma tmux_has_session_needs_backspace:
  assumes "proc [''tmux'', ''ls''] (world s) = (Inr out, w)" and "CHR 0x08 \<notin> set out"
  shows "fst (tmux_has_session proc session s) = Inr False"
proof -
  have sp: "py_split ''tmux ls'' = [''tmux'', ''ls'']"
    by code_simp
  have "\<not> py_in ([CHR 0x08] @ session @ [CHR 0x08]) out"
    using assms(2) py_in_set by fastforce
  then show ?thesis
    using assms(1) by (simp add: tmux_has_session_def and_then_def subprocess_run_def sp re_search_def)
qed

text \<open>
  Claim C1 at a live session: \<open>tmux ls\<close> lists the session \<open>proj\<close>, and the existence
  check for \<open>proj\<close> answers that there is none.
\<close>

theorem tmux_has_session_misses_live_session:
  "tmux_has_session tmux_ls_proc ''proj'' start =
     (Inr False, \<lparr>world = (), trace = [Run [''tmux'', ''ls'']]\<rparr>)"
  by code_simp

text \<open>
  Claim C2 at a live session: outside the multiplexer, with the session \<open>proj\<close> live,
  each call of \<open>new_session\<close> for \<open>proj\<close> launches \<open>tmux new-session\<close> before it attaches;
  two calls in a row launch it twice.
\<close>

theorem new_session_creates_for_live_session:
  "map (\<lambda>ev. case ev of Run cmd \<Rightarrow> cmd | _ \<Rightarrow> [])
     (filter is_create
       (trace (snd (new_session tmux_ls_proc outside_tmux (muxer_of outside_tmux ''code/proj'')
         (snd (new_session tmux_ls_proc outside_tmux (muxer_of outside_tmux ''code/proj'') start)))))) =
     [[''tmux'', ''new-session'', ''-A'', ''-s'', ''proj'', ''-c'', ''/home/u/code/proj''],
      [''tmux'', ''new-session'', ''-A'', ''-s'', ''proj'', ''-c'', ''/home/u/code/proj'']]"
  by code_simp

section \<open>SSH hosts\<close>

lemma py_in_single: "py_in [c] s \<longleftrightarrow> c \<in> set s"
  by (induction s) auto

lemma split_ws_chars: "a \<in> set (split_ws cur s) \<Longrightarrow> set a \<subseteq> set cur \<union> set s"
proof (induction s arbitrary: cur)
  case Nil
  then show ?case by (auto split: if_splits)
next
  case (Cons c cs)
  show ?case
  proof (cases "is_space c")
    case True
    then have "a = cur \<or> a \<in> set (split_ws [] cs)"
      using Cons.prems by (auto split: if_splits)
    then show ?thesis
      using Cons.IH[of "[]"] by auto
  next
    case False
    then have "a \<in> set (split_ws (cur @ [c]) cs)"
      using Cons.prems by simp
    then show ?thesis
      using Cons.IH[of "cur @ [c]"] by auto
  qed
qed

lemma py_split_chars: "a \<in> set (py_split s) \<Longrightarrow> set a \<subseteq> set s"
  using split_ws_chars[of a "[]" s] by (simp add: py_split_def)

lemma ssh_loop_set:
  "set (ssh_loop lines cands) =
     set cands \<union> {a. \<exists>l \<in> set lines. startswith ''Host'' l \<and> \<not> py_in ''*'' l \<and> a \<in> set (drop 1 (py_split l))}"
  by (induction lines arbitrary: cands) auto

lemma get_ssh_hosts_set:
  assumes "read_text e (joinpath (joinpath (HOME g) ''.ssh'') ''config'') = Inr text"
  shows "\<exists>out. get_ssh_hosts e g q = Inr out \<and> sorted out \<and>
     set out = {''ssh: '' @ a | a. py_in q a \<and> (\<exists>l \<in> set (splitlines text). startswith ''Host'' l \<and> CHR ''*'' \<notin> set l \<and> a \<in> set (drop 1 (py_split l)))}"
proof -
  have e: "py_in [] a" for a by (cases a) simp_all
  show ?thesis
    using assms by (auto simp: get_ssh_hosts_def Let_def ssh_loop_set py_in_single e)
qed

text \<open>
  Claim C4: when the configuration can be read, \<open>get_ssh_hosts\<close> returns a sorted list;
  every entry is the marker \<open>ssh: \<close> followed by an alias that contains the query and is
  a token, other than the first, of a line that starts with \<open>Host\<close> and contains no
  asterisk, so that no alias of a wildcard line is returned and no entry contains an
  asterisk. For the configuration with \<open>Host myserver\<close>, an indented \<open>HostName\<close> line
  and \<open>Host *.internal\<close>, the empty query gives exactly \<open>ssh: myserver\<close>.
\<close>

theorem get_ssh_hosts_skips_wildcards:
  assumes "read_text e (joinpath (joinpath (HOME g) ''.ssh'') ''config'') = Inr text"
  shows "\<exists>out. get_ssh_hosts e g q = Inr out \<and> sorted out
     \<and> (\<forall>x \<in> set out. \<exists>l a. x = ''ssh: '' @ a \<and> CHR ''*'' \<notin> set a \<and> py_in q a
            \<and> l \<in> set (splitlines text) \<and> startswith ''Host'' l \<and> CHR ''*'' \<notin> set l
            \<and> a \<in> set (drop 1 (py_split l)))
     \<and> (text = ssh_config_text \<and> q = [] \<longrightarrow> out = [''ssh: myserver''])"
proof -
  obtain out where o: "get_ssh_hosts e g q = Inr out" "sorted out"
    "set out = {''ssh: '' @ a | a. py_in q a \<and> (\<exists>l \<in> set (splitlines text). startswith ''Host'' l \<and> CHR ''*'' \<notin> set l \<and> a \<in> set (drop 1 (py_split l)))}"
    using get_ssh_hosts_set[OF assms] by blast
  have 1: "\<forall>x \<in> set out. \<exists>l a. x = ''ssh: '' @ a \<and> CHR ''*'' \<notin> set a \<and> py_in q a
            \<and> l \<in> set (splitlines text) \<and> startswith ''Host'' l \<and> CHR ''*'' \<notin> set l
            \<and> a \<in> set (drop 1 (py_split l))"
  proof
    fix x assume "x \<in> set out"
    then obtain a l where al: "x = ''ssh: '' @ a" "py_in q a" "l \<in> set (splitlines text)"
      "startswith ''Host'' l" "CHR ''*'' \<notin> set l" "a \<in> set (drop 1 (py_split l))"
      using o(3) by auto
    from al(6) have "a \<in> set (py_split l)" by (meson in_set_dropD)
    then have "set a \<subseteq> set l" by (rule py_split_chars)
    then have "CHR ''*'' \<notin> set a" using al(5) by auto
    then show "\<exists>l a. x = ''ssh: '' @ a \<and> CHR ''*'' \<notin> set a \<and> py_in q a
            \<and> l \<in> set (splitlines text) \<and> startswith ''Host'' l \<and> CHR ''*'' \<notin> set l
            \<and> a \<in> set (drop 1 (py_split l))"
      using al by blast
  qed
  have 2: "out = [''ssh: myserver'']" if "text = ssh_config_text" "q = []"
  proof -
    have "ssh_loop (splitlines ssh_config_text) [] = [''myserver'']"
      by code_simp
    then have "get_ssh_hosts e g [] = Inr [''ssh: myserver'']"
      using assms that by (simp add: get_ssh_hosts_def)
    then show ?thesis using o(1) that by simp
  qed
  show ?thesis using o(1,2) 1 2 by blast
qed

text \<open>The theorem at the example machine with that configuration.\<close>

theorem get_ssh_hosts_skips_wildcards_witness:
  "read_text (example_env None (Some ssh_config_text))
      (joinpath (joinpath (HOME outside_tmux) ''.ssh'') ''config'') = Inr ssh_config_text
   \<and> get_ssh_hosts (example_env None (Some ssh_config_text)) outside_tmux [] = Inr [''ssh: myserver'']"
proof -
  have r: "read_text (example_env None (Some ssh_config_text))
      (joinpath (joinpath (HOME outside_tmux) ''.ssh'') ''config'') = Inr ssh_config_text"
    by code_simp
  from get_ssh_hosts_skips_wildcards[OF r, of "[]"] show ?thesis
    using r by auto
qed

text \<open>
  Claim C10: a line that starts with the four characters \<open>Host\<close> and contains no asterisk
  counts as a host declaration, whatever follows the four characters: each of its tokens
  after the first that contains the query is returned with the marker. An unindented
  \<open>HostName 1.2.3.4\<close> so contributes \<open>ssh: 1.2.3.4\<close>.
\<close>

theorem get_ssh_hosts_takes_any_Host_prefix:
  assumes "read_text e (joinpath (joinpath (HOME g) ''.ssh'') ''config'') = Inr text"
    and "l \<in> set (splitlines text)" and "startswith ''Host'' l" and "CHR ''*'' \<notin> set l"
    and "a \<in> set (drop 1 (py_split l))" and "py_in q a"
  shows "\<exists>out. get_ssh_hosts e g q = Inr out \<and> ''ssh: '' @ a \<in> set out"
  using get_ssh_hosts_set[OF assms(1), of q] assms(2-6) by blast

text \<open>The theorem at a configuration whose \<open>HostName\<close> and \<open>HostKeyAlgorithms\<close> lines are
  not indented.\<close>

theorem get_ssh_hosts_takes_any_Host_prefix_witness:
  "read_text (example_env None (Some unindented_config))
      (joinpath (joinpath (HOME outside_tmux) ''.ssh'') ''config'') = Inr unindented_config
   \<and> ''HostName 1.2.3.4'' \<in> set (splitlines unindented_config)
   \<and> startswith ''Host'' ''HostName 1.2.3.4''
   \<and> CHR ''*'' \<notin> set ''HostName 1.2.3.4''
   \<and> ''1.2.3.4'' \<in> set (drop 1 (py_split ''HostName 1.2.3.4''))
   \<and> py_in [] ''1.2.3.4''
   \<and> (\<exists>out. get_ssh_hosts (example_env None (Some unindented_config)) outside_tmux [] = Inr out
          \<and> ''ssh: '' @ ''1.2.3.4'' \<in> set out)
   \<and> get_ssh_hosts (example_env None (Some unindented_config)) outside_tmux [] =
        Inr [''ssh: 1.2.3.4'', ''ssh: myserver'', ''ssh: ssh-ed25519'']"
proof -
  have r: "read_text (example_env None (Some unindented_config))
      (joinpath (joinpath (HOME outside_tmux) ''.ssh'') ''config'') = Inr unindented_config"
    by code_simp
  have l: "''HostName 1.2.3.4'' \<in> set (splitlines unindented_config)" by code_simp
  have s: "startswith ''Host'' ''HostName 1.2.3.4''" by code_simp
  have w: "CHR ''*'' \<notin> set ''HostName 1.2.3.4''" by simp
  have a: "''1.2.3.4'' \<in> set (drop 1 (py_split ''HostName 1.2.3.4''))" by code_simp
  have q: "py_in [] ''1.2.3.4''" by simp
  have v: "get_ssh_hosts (example_env None (Some unindented_config)) outside_tmux [] =
     Inr [''ssh: 1.2.3.4'', ''ssh: myserver'', ''ssh: ssh-ed25519'']"
    by code_simp
  from get_ssh_hosts_takes_any_Host_prefix[OF r l s w a q] r l s w a q v show ?thesis
    by blast
qed

section \<open>Local directories\<close>

lemma relative_eq:
  "relative g d = (if under_home g d then Inr (home_relative g d) else Inl ValueError)"
  by (simp add: relative_def relative_to_def under_home_def home_relative_def)

lemma map_relative_eq:
  "map_relative g ds =
     (if list_all (under_home g) ds then Inr (map (home_relative g) ds) else Inl ValueError)"
  by (induction ds) (simp_all add: relative_eq)

lemma get_local_directories_eq:
  assumes "load_candidates e = Inr lines" and "collect e lines [] {} = Inr (dirs, ex)"
  shows "get_local_directories e g q =
     (if list_all (under_home g) (filter (valid e q ex) dirs)
      then Inr (sort (map (home_relative g) (filter (valid e q ex) dirs)))
      else Inl ValueError)"
  using assms by (simp add: get_local_directories_def map_relative_eq)

text \<open>
  Claim C8: when the rule lines have been read and expanded, and some collected path
  that passes the filter \<open>valid\<close> does not lie under the home directory, the call fails
  with \<open>ValueError\<close>; the entry is not skipped. The result is a function of the rule
  lines, the file system and the query, and the theorem holds for every order in which
  a directory lists its entries.
\<close>

theorem get_local_directories_outside_home_fails:
  assumes "load_candidates e = Inr lines" and "collect e lines [] {} = Inr (dirs, ex)"
    and "d \<in> set dirs" and "valid e q ex d" and "\<not> under_home g d"
  shows "get_local_directories e g q = Inl ValueError"
proof -
  have "\<not> list_all (under_home g) (filter (valid e q ex) dirs)"
    using assms(3-5) by (auto simp: list_all_iff)
  then show ?thesis
    using get_local_directories_eq[OF assms(1,2)] by simp
qed

text \<open>The theorem at a rule file that lists \<open>/tmp\<close>.\<close>

theorem get_local_directories_outside_home_fails_witness:
  "load_candidates (example_env (Some ''~/notes\<newline>/tmp\<newline>'') None) = Inr [''~/notes'', ''/tmp'']
   \<and> collect (example_env (Some ''~/notes\<newline>/tmp\<newline>'') None) [''~/notes'', ''/tmp''] [] {} =
        Inr ([Path ''/home/u/notes'', Path ''/tmp''], {})
   \<and> Path ''/tmp'' \<in> set [Path ''/home/u/notes'', Path ''/tmp'']
   \<and> valid (example_env (Some ''~/notes\<newline>/tmp\<newline>'') None) [] {} (Path ''/tmp'')
   \<and> \<not> under_home outside_tmux (Path ''/tmp'')
   \<and> get_local_directories (example_env (Some ''~/notes\<newline>/tmp\<newline>'') None) outside_tmux [] = Inl ValueError"
proof -
  let ?e = "example_env (Some ''~/notes\<newline>/tmp\<newline>'') None"
  have 1: "load_candidates ?e = Inr [''~/notes'', ''/tmp'']" by code_simp
  have 2: "collect ?e [''~/notes'', ''/tmp''] [] {} = Inr ([Path ''/home/u/notes'', Path ''/tmp''], {})"
    by code_simp
  have 3: "Path ''/tmp'' \<in> set [Path ''/home/u/notes'', Path ''/tmp'']" by simp
  have 4: "valid ?e [] {} (Path ''/tmp'')" by code_simp
  have 5: "\<not> under_home outside_tmux (Path ''/tmp'')" by code_simp
  from get_local_directories_outside_home_fails[OF 1 2 3 4 5] 1 2 3 4 5
  show ?thesis by blast
qed

lemma collect_plain:
  assumes "list_all (\<lambda>l. \<not> startswith ''!'' l \<and> \<not> endswith ''*'' l) lines"
    and "map (\<lambda>l. expanduser e (Path l)) lines = map Inr ps"
  shows "collect e lines dirs ex = Inr (dirs @ ps, ex)"
  using assms
proof (induction lines arbitrary: dirs ps)
  case Nil
  then show ?case by simp
next
  case (Cons l ls)
  from Cons.prems(2) obtain p ps' where ps: "ps = p # ps'" "expanduser e (Path l) = Inr p"
    "map (\<lambda>l. expanduser e (Path l)) ls = map Inr ps'"
    by (cases ps) auto
  from Cons.prems(1) have l: "\<not> startswith ''!'' l" "\<not> endswith ''*'' l"
    and ls: "list_all (\<lambda>l. \<not> startswith ''!'' l \<and> \<not> endswith ''*'' l) ls"
    by simp_all
  have "collect e (l # ls) dirs ex = collect e ls (dirs @ [p]) ex"
    using l ps(2) by simp
  also have "\<dots> = Inr ((dirs @ [p]) @ ps', ex)"
    using Cons.IH[OF ls ps(3)] .
  finally show ?case using ps(1) by simp
qed

lemma stem_hidden: "startswith ''.'' (stem d) \<longleftrightarrow> startswith ''.'' (path_name d)"
proof -
  have "prefix [c] (take i s) \<longleftrightarrow> prefix [c] s" if "0 < i" for c :: char and i s
    using that by (cases s; cases i) simp_all
  then show ?thesis
    by (simp add: stem_def startswith_def Let_def split: option.splits)
qed

lemma valid_plain: "valid e q {} d = listed_ok e q d"
  by (auto simp: valid_def listed_ok_def stem_hidden)

text \<open>
  Claim C3, as the code has it: for rule lines without an exclusion line and without a
  wildcard line, all of which expand, the result is decided by the listed paths that
  are existing directories, whose final segment does not start with a dot and whose
  stem (the final segment without its last suffix) contains the query. If all of them
  lie under the home directory, the result is the sorted list of their home-relative
  strings; otherwise the call fails with \<open>ValueError\<close>.
\<close>

theorem get_local_directories_plain_rules:
  assumes "load_candidates e = Inr lines"
    and "list_all (\<lambda>l. \<not> startswith ''!'' l \<and> \<not> endswith ''*'' l) lines"
    and "map (\<lambda>l. expanduser e (Path l)) lines = map Inr ps"
  shows "get_local_directories e g q =
     (if list_all (under_home g) (filter (listed_ok e q) ps)
      then Inr (sort (map (home_relative g) (filter (listed_ok e q) ps)))
      else Inl ValueError)"
proof -
  have c: "collect e lines [] {} = Inr (ps, {})"
    using collect_plain[OF assms(2,3), of "[]" "{}"] by simp
  have v: "valid e q {} = listed_ok e q"
    by (rule ext) (rule valid_plain)
  show ?thesis
    using get_local_directories_eq[OF assms(1) c, of g q] by (simp only: v)
qed

text \<open>The theorem at a rule file of six literal lines.\<close>

theorem get_local_directories_plain_rules_witness:
  "load_candidates (example_env (Some plain_rules) None) =
      Inr [''~/notes'', ''~/code/b'', ''/home/u/code/a'', ''~/code/.git'', ''~/code/todo.txt'', ''~/code/proj.v2'']
   \<and> list_all (\<lambda>l. \<not> startswith ''!'' l \<and> \<not> endswith ''*'' l)
        [''~/notes'', ''~/code/b'', ''/home/u/code/a'', ''~/code/.git'', ''~/code/todo.txt'', ''~/code/proj.v2'']
   \<and> map (\<lambda>l. expanduser (example_env (Some plain_rules) None) (Path l))
        [''~/notes'', ''~/code/b'', ''/home/u/code/a'', ''~/code/.git'', ''~/code/todo.txt'', ''~/code/proj.v2''] =
      map Inr (map Path [''/home/u/notes'', ''/home/u/code/b'', ''/home/u/code/a'', ''/home/u/code/.git'',
                         ''/home/u/code/todo.txt'', ''/home/u/code/proj.v2''])
   \<and> get_local_directories (example_env (Some plain_rules) None) outside_tmux [] =
      Inr [''code/a'', ''code/b'', ''code/proj.v2'', ''notes'']"
proof -
  let ?e = "example_env (Some plain_rules) None"
  let ?lines = "[''~/notes'', ''~/code/b'', ''/home/u/code/a'', ''~/code/.git'', ''~/code/todo.txt'', ''~/code/proj.v2'']"
  let ?ps = "map Path [''/home/u/notes'', ''/home/u/code/b'', ''/home/u/code/a'', ''/home/u/code/.git'',
                         ''/home/u/code/todo.txt'', ''/home/u/code/proj.v2'']"
  have 1: "load_candidates ?e = Inr ?lines" by code_simp
  have 2: "list_all (\<lambda>l. \<not> startswith ''!'' l \<and> \<not> endswith ''*'' l) ?lines" by code_simp
  have 3: "map (\<lambda>l. expanduser ?e (Path l)) ?lines = map Inr ?ps" by code_simp
  have 4: "(if list_all (under_home outside_tmux) (filter (listed_ok ?e []) ?ps)
      then Inr (sort (map (home_relative outside_tmux) (filter (listed_ok ?e []) ?ps)))
      else Inl ValueError) = Inr [''code/a'', ''code/b'', ''code/proj.v2'', ''notes'']"
    by code_simp
  from get_local_directories_plain_rules[OF 1 2 3, of outside_tmux "[]"] 4
  have "get_local_directories ?e outside_tmux [] = Inr [''code/a'', ''code/b'', ''code/proj.v2'', ''notes'']"
    by (rule trans)
  then show ?thesis using 1 2 3 by blast
qed

text \<open>
  Claim C3 as stated fails twice. The listed directory \<open>~/code/proj.v2\<close> exists, is not
  hidden, and its final segment contains the query \<open>v2\<close>, but its stem \<open>proj\<close> does not:
  the result is empty. The listed directory \<open>/tmp\<close> exists, is not hidden and contains
  the query \<open>tmp\<close>, but has no home-relative form: the call fails and returns nothing.
\<close>

theorem get_local_directories_stem_counterexample:
  "load_candidates (example_env (Some ''~/code/proj.v2\<newline>'') None) = Inr [''~/code/proj.v2'']
   \<and> expanduser (example_env (Some ''~/code/proj.v2\<newline>'') None) (Path ''~/code/proj.v2'') = Inr (Path ''/home/u/code/proj.v2'')
   \<and> is_dir (example_env (Some ''~/code/proj.v2\<newline>'') None) (Path ''/home/u/code/proj.v2'')
   \<and> \<not> startswith ''.'' (path_name (Path ''/home/u/code/proj.v2''))
   \<and> py_in ''v2'' (path_name (Path ''/home/u/code/proj.v2''))
   \<and> relative outside_tmux (Path ''/home/u/code/proj.v2'') = Inr ''code/proj.v2''
   \<and> get_local_directories (example_env (Some ''~/code/proj.v2\<newline>'') None) outside_tmux ''v2'' = Inr []
   \<and> load_candidates (example_env (Some ''/tmp\<newline>'') None) = Inr [''/tmp'']
   \<and> is_dir (example_env (Some ''/tmp\<newline>'') None) (Path ''/tmp'')
   \<and> get_local_directories (example_env (Some ''/tmp\<newline>'') None) outside_tmux ''tmp'' = Inl ValueError"
  by code_simp

subsection \<open>Exclusions\<close>

lemma split_on_no_sep:
  "sep \<notin> set cur \<Longrightarrow> x \<in> set (split_on sep cur s) \<Longrightarrow> sep \<notin> set x"
proof (induction s arbitrary: cur)
  case Nil
  then show ?case by simp
next
  case (Cons c cs)
  show ?case
  proof (cases "c = sep")
    case True
    then have "x = cur \<or> x \<in> set (split_on sep [] cs)"
      using Cons.prems(2) by simp
    then show ?thesis
      using Cons.prems(1) Cons.IH[of "[]"] by auto
  next
    case False
    then have "x \<in> set (split_on sep (cur @ [c]) cs)"
      using Cons.prems(2) by simp
    then show ?thesis
      using Cons.prems(1) False Cons.IH[of "cur @ [c]"] by auto
  qed
qed

lemma wf_Path: "wf_path (Path s)"
  by (auto simp: wf_path_def Path_def component_def list_all_iff split: prod.splits
      dest: split_on_no_sep[rotated])

lemma wf_expanduser:
  assumes "expanduser e p = Inr p'" and "wf_path p"
  shows "wf_path p'"
proof (cases "root p = [] \<and> parts p \<noteq> [] \<and> take 1 (hd (parts p)) = ''~''")
  case True
  then have p': "p' = (Path (os_expanduser e (hd (parts p))))
      \<lparr>parts := parts (Path (os_expanduser e (hd (parts p)))) @ tl (parts p)\<rparr>"
    using assms(1) by (simp add: expanduser_def Let_def split: if_splits)
  have "list_all component (tl (parts p))"
    using assms(2) True by (cases "parts p") (simp_all add: wf_path_def)
  then show ?thesis
    using wf_Path[of "os_expanduser e (hd (parts p))"] by (simp add: p' wf_path_def)
next
  case False
  then have "p' = p" using assms(1) by (auto simp: expanduser_def)
  then show ?thesis using assms(2) by simp
qed

lemma wf_glob_star:
  assumes "wf_path p" and "\<forall>d. list_all component (scandir e d)"
  shows "list_all wf_path (glob_star e p)"
  using assms by (auto simp: glob_star_def wf_path_def list_all_iff)

lemma collect_wf:
  assumes "collect e lines dirs ex = Inr (dirs', ex')" and "list_all wf_path dirs"
    and "\<forall>d. list_all component (scandir e d)"
  shows "list_all wf_path dirs'"
  using assms
proof (induction lines arbitrary: dirs ex)
  case Nil
  then show ?case by simp
next
  case (Cons l ls)
  show ?case
  proof (cases "endswith ''*'' l")
    case True
    from Cons.prems(1) True obtain p ex1 where
      p: "expanduser e (Path (butlast l)) = Inr p"
      and r: "collect e ls (dirs @ glob_star e p) ex1 = Inr (dirs', ex')"
      by (auto split: if_splits sum.splits)
    have "wf_path p" using wf_expanduser[OF p wf_Path] .
    then have "list_all wf_path (dirs @ glob_star e p)"
      using Cons.prems(2,3) wf_glob_star by simp
    then show ?thesis using Cons.IH[OF r _ Cons.prems(3)] by simp
  next
    case False
    from Cons.prems(1) False obtain p ex1 where
      p: "expanduser e (Path l) = Inr p"
      and r: "collect e ls (dirs @ [p]) ex1 = Inr (dirs', ex')"
      by (auto split: if_splits sum.splits)
    have "wf_path p" using wf_expanduser[OF p wf_Path] .
    then have "list_all wf_path (dirs @ [p])"
      using Cons.prems(2) by simp
    then show ?thesis using Cons.IH[OF r _ Cons.prems(3)] by simp
  qed
qed

lemma collect_excludes_mono:
  "collect e lines dirs ex = Inr (dirs', ex') \<Longrightarrow> ex \<subseteq> ex'"
proof (induction lines arbitrary: dirs ex)
  case Nil
  then show ?case by simp
next
  case (Cons l ls)
  from Cons.prems obtain ds1 ex1 where
    r: "collect e ls ds1 ex1 = Inr (dirs', ex')" and s: "ex \<subseteq> ex1"
    by (auto split: if_splits sum.splits)
  from Cons.IH[OF r] s show ?case by blast
qed

lemma collect_excludes:
  assumes "collect e lines dirs ex = Inr (dirs', ex')" and "l \<in> set lines"
    and "startswith ''!'' l" and "expanduser e (Path (drop 1 l)) = Inr p"
  shows "p \<in> ex'"
  using assms
proof (induction lines arbitrary: dirs ex)
  case Nil
  then show ?case by simp
next
  case (Cons x xs)
  show ?case
  proof (cases "x = l")
    case True
    from Cons.prems(1,3,4) True obtain ds1 where
      r: "collect e xs ds1 (insert p ex) = Inr (dirs', ex')"
      by (auto split: if_splits sum.splits)
    from collect_excludes_mono[OF r] show ?thesis by simp
  next
    case False
    then have lx: "l \<in> set xs" using Cons.prems(2) by simp
    from Cons.prems(1) obtain ds1 ex1 where
      r: "collect e xs ds1 ex1 = Inr (dirs', ex')"
      by (auto split: if_splits sum.splits)
    from Cons.IH[OF r lx Cons.prems(3,4)] show ?thesis .
  qed
qed

lemma join_Cons: "join sep (x # xs) = (if xs = [] then x else x @ sep @ join sep xs)"
  by (cases xs) simp_all

lemma join_head:
  assumes "component x"
  shows "takeWhile (\<lambda>c. c \<noteq> CHR ''/'') (join ''/'' (x # xs)) = x"
    and "dropWhile (\<lambda>c. c \<noteq> CHR ''/'') (join ''/'' (x # xs)) =
           (if xs = [] then [] else ''/'' @ join ''/'' xs)"
proof -
  have x: "\<And>c. c \<in> set x \<Longrightarrow> c \<noteq> CHR ''/''"
    using assms by (auto simp: component_def)
  show "takeWhile (\<lambda>c. c \<noteq> CHR ''/'') (join ''/'' (x # xs)) = x"
    using x by (simp add: join_Cons takeWhile_append2)
  show "dropWhile (\<lambda>c. c \<noteq> CHR ''/'') (join ''/'' (x # xs)) =
           (if xs = [] then [] else ''/'' @ join ''/'' xs)"
    using x by (simp add: join_Cons dropWhile_append2)
qed

lemma join_Nil_iff: "list_all component xs \<Longrightarrow> join ''/'' xs = [] \<longleftrightarrow> xs = []"
  by (cases xs) (auto simp: join_Cons component_def)

lemma join_inj:
  assumes "list_all component xs" and "list_all component ys"
    and "join ''/'' xs = join ''/'' ys"
  shows "xs = ys"
  using assms
proof (induction xs arbitrary: ys)
  case Nil
  then show ?case using join_Nil_iff[of ys] by simp
next
  case (Cons x xs)
  from Cons.prems have "ys \<noteq> []"
    using join_Nil_iff[of "x # xs"] by auto
  then obtain y ys' where ys: "ys = y # ys'" by (cases ys) auto
  have cx: "component x" and cy: "component y"
    using Cons.prems(1,2) ys by simp_all
  have "takeWhile (\<lambda>c. c \<noteq> CHR ''/'') (join ''/'' (x # xs)) =
        takeWhile (\<lambda>c. c \<noteq> CHR ''/'') (join ''/'' (y # ys'))"
    using Cons.prems(3) ys by simp
  then have xy: "x = y"
    by (simp only: join_head(1)[OF cx] join_head(1)[OF cy])
  have "dropWhile (\<lambda>c. c \<noteq> CHR ''/'') (join ''/'' (x # xs)) =
        dropWhile (\<lambda>c. c \<noteq> CHR ''/'') (join ''/'' (y # ys'))"
    using Cons.prems(3) ys by simp
  then have d: "(if xs = [] then [] else ''/'' @ join ''/'' xs) =
                (if ys' = [] then [] else ''/'' @ join ''/'' ys')"
    by (simp only: join_head(2)[OF cx] join_head(2)[OF cy])
  have "join ''/'' xs = join ''/'' ys'"
    using d by (auto split: if_splits)
  then have "xs = ys'"
    using Cons.IH[of ys'] Cons.prems(1,2) ys by simp
  then show ?case using xy ys by simp
qed

lemma join_not_dot: "list_all component xs \<Longrightarrow> join ''/'' xs \<noteq> ''.''"
proof (cases xs)
  case Nil
  then show ?thesis by simp
next
  case (Cons x xs')
  assume a: "list_all component xs"
  show ?thesis
  proof (cases xs')
    case Nil
    then show ?thesis using a Cons by (simp add: component_def)
  next
    case (Cons y ys)
    have "CHR ''/'' \<in> set (join ''/'' xs)"
      using \<open>xs = x # xs'\<close> Cons by simp
    then show ?thesis by auto
  qed
qed

lemma rel_str_inj:
  assumes "list_all component xs" and "list_all component ys"
    and "path_str \<lparr>root = [], parts = xs\<rparr> = path_str \<lparr>root = [], parts = ys\<rparr>"
  shows "xs = ys"
proof -
  have x: "path_str \<lparr>root = [], parts = xs\<rparr> = (if xs = [] then ''.'' else join ''/'' xs)"
    using join_Nil_iff[OF assms(1)] by (simp add: path_str_def Let_def)
  have y: "path_str \<lparr>root = [], parts = ys\<rparr> = (if ys = [] then ''.'' else join ''/'' ys)"
    using join_Nil_iff[OF assms(2)] by (simp add: path_str_def Let_def)
  show ?thesis
  proof (cases "xs = []")
    case True
    then have "ys = [] \<or> join ''/'' ys = ''.''"
      using assms(3) unfolding x y by (simp split: if_splits)
    then show ?thesis using True join_not_dot[OF assms(2)] by simp
  next
    case False
    then have "ys \<noteq> []"
      using assms(3) join_not_dot[OF assms(1)] unfolding x y by (auto split: if_splits)
    then have "join ''/'' xs = join ''/'' ys"
      using False assms(3) unfolding x y by simp
    then show ?thesis by (rule join_inj[OF assms(1,2)])
  qed
qed

lemma home_relative_inj:
  assumes "under_home g d" and "under_home g p" and "wf_path d" and "wf_path p"
    and "home_relative g d = home_relative g p"
  shows "d = p"
proof -
  define n where "n = length (parts (HOME g))"
  have cd: "list_all component (drop n (parts d))" and cp: "list_all component (drop n (parts p))"
    using assms(3,4) by (auto simp: wf_path_def list_all_iff dest: in_set_dropD)
  have "drop n (parts d) = drop n (parts p)"
    using assms(5) rel_str_inj[OF cd cp] by (simp add: home_relative_def n_def)
  moreover have "take n (parts d) = parts (HOME g)" "take n (parts p) = parts (HOME g)"
    using assms(1,2) by (auto simp: under_home_def n_def prefix_def)
  ultimately have "parts d = parts p"
    by (metis append_take_drop_id)
  moreover have "root d = root p"
    using assms(1,2) by (simp add: under_home_def)
  ultimately show ?thesis by simp
qed

text \<open>
  Claim C5: a path named by an exclusion line is never in the result. For every rule
  line that starts with the exclusion marker, whenever the call returns, the
  home-relative string of the path the line names is not among the returned strings,
  whether the path was listed literally or found by a wildcard line, and whatever else
  holds of it. Directory entries are taken to be proper component names.
\<close>

theorem get_local_directories_excludes:
  assumes "load_candidates e = Inr lines" and "l \<in> set lines" and "startswith ''!'' l"
    and "expanduser e (Path (drop 1 l)) = Inr p"
    and "\<forall>d. list_all component (scandir e d)"
    and "get_local_directories e g q = Inr out"
    and "relative g p = Inr x"
  shows "x \<notin> set out"
proof
  assume x: "x \<in> set out"
  from assms(1,6) obtain dirs ex where c: "collect e lines [] {} = Inr (dirs, ex)"
    by (auto simp: get_local_directories_def split: sum.splits)
  have all: "list_all (under_home g) (filter (valid e q ex) dirs)"
    and out: "out = sort (map (home_relative g) (filter (valid e q ex) dirs))"
    using get_local_directories_eq[OF assms(1) c, of g q] assms(6)
    by (auto split: if_splits)
  from x out obtain d where d: "d \<in> set dirs" "valid e q ex d" "home_relative g d = x"
    by auto
  have ud: "under_home g d" using all d(1,2) by (auto simp: list_all_iff)
  have up: "under_home g p" and xp: "home_relative g p = x"
    using assms(7) by (auto simp: relative_eq split: if_splits)
  have wd: "wf_path d"
    using collect_wf[OF c _ assms(5)] d(1) by (auto simp: list_all_iff)
  have wp: "wf_path p"
    using wf_expanduser[OF assms(4) wf_Path] .
  have "d = p"
    using home_relative_inj[OF ud up wd wp] d(3) xp by simp
  moreover have "p \<in> ex"
    using collect_excludes[OF c assms(2,3,4)] .
  moreover have "d \<notin> ex"
    using d(2) by (simp add: valid_def)
  ultimately show False by simp
qed

text \<open>The theorem at a rule file that globs \<open>~/code\<close> and excludes \<open>~/code/b\<close>, an existing
  directory that is not hidden.\<close>

theorem get_local_directories_excludes_witness:
  "load_candidates (example_env (Some exclusion_rules) None) = Inr [''~/code/*'', ''!~/code/b'']
   \<and> ''!~/code/b'' \<in> set [''~/code/*'', ''!~/code/b'']
   \<and> startswith ''!'' ''!~/code/b''
   \<and> expanduser (example_env (Some exclusion_rules) None) (Path (drop 1 ''!~/code/b'')) = Inr (Path ''/home/u/code/b'')
   \<and> is_dir (example_env (Some exclusion_rules) None) (Path ''/home/u/code/b'')
   \<and> (\<forall>d. list_all component (scandir (example_env (Some exclusion_rules) None) d))
   \<and> get_local_directories (example_env (Some exclusion_rules) None) outside_tmux [] = Inr [''code/a'', ''code/proj.v2'']
   \<and> relative outside_tmux (Path ''/home/u/code/b'') = Inr ''code/b''
   \<and> ''code/b'' \<notin> set [''code/a'', ''code/proj.v2'']"
proof -
  let ?e = "example_env (Some exclusion_rules) None"
  have 1: "load_candidates ?e = Inr [''~/code/*'', ''!~/code/b'']" by code_simp
  have 2: "''!~/code/b'' \<in> set [''~/code/*'', ''!~/code/b'']" by simp
  have 3: "startswith ''!'' ''!~/code/b''" by code_simp
  have 4: "expanduser ?e (Path (drop 1 ''!~/code/b'')) = Inr (Path ''/home/u/code/b'')" by code_simp
  have 5: "\<forall>d. list_all component (scandir ?e d)"
    by (simp add: example_env_def component_def)
  have 6: "get_local_directories ?e outside_tmux [] = Inr [''code/a'', ''code/proj.v2'']" by code_simp
  have 7: "relative outside_tmux (Path ''/home/u/code/b'') = Inr ''code/b''" by code_simp
  have 8: "is_dir ?e (Path ''/home/u/code/b'')" by code_simp
  from get_local_directories_excludes[OF 1 2 3 4 5 6 7] 1 2 3 4 5 6 7 8
  show ?thesis by blast
qed

subsection \<open>Missing files\<close>

lemma expanduser_tilde:
  assumes "module_init e = Inr g"
  shows "expanduser e \<lparr>root = [], parts = ''~'' # rest\<rparr> = Inr ((HOME g)\<lparr>parts := parts (HOME g) @ rest\<rparr>)"
proof -
  have p: "Path ''~'' = \<lparr>root = [], parts = [''~'']\<rparr>" by code_simp
  from assms have h: "take 1 (os_expanduser e ''~'') \<noteq> ''~''"
    and g: "HOME g = Path (os_expanduser e ''~'')"
    by (auto simp: module_init_def expanduser_def p Let_def split: if_splits sum.splits)
  show ?thesis
    using h by (simp add: expanduser_def Let_def g)
qed

lemma under_home_child: "under_home g ((HOME g)\<lparr>parts := parts (HOME g) @ rest\<rparr>)"
  by (simp add: under_home_def)

lemma under_home_glob:
  "under_home g p \<Longrightarrow> list_all (under_home g) (glob_star e p)"
  by (auto simp: glob_star_def under_home_def list_all_iff prefix_def)

lemma load_candidates_default:
  assumes "module_init e = Inr g" and "\<not> path_exists e (joinpath (HOME g) ''.muxer.rc'')"
  shows "load_candidates e = Inr default_candidates"
proof -
  have p: "Path ''~/.muxer.rc'' = \<lparr>root = [], parts = [''~'', ''.muxer.rc'']\<rparr>" by code_simp
  have q: "Path ''.muxer.rc'' = \<lparr>root = [], parts = [''.muxer.rc'']\<rparr>" by code_simp
  have j: "joinpath (HOME g) ''.muxer.rc'' = (HOME g)\<lparr>parts := parts (HOME g) @ [''.muxer.rc'']\<rparr>"
    by (simp add: joinpath_def q)
  show ?thesis
    using assms(2) by (simp add: load_candidates_def p expanduser_tilde[OF assms(1)] j)
qed

lemma collect_default:
  assumes "module_init e = Inr g"
  shows "collect e default_candidates [] {} =
     Inr ([(HOME g)\<lparr>parts := parts (HOME g) @ [''notes'']\<rparr>,
           (HOME g)\<lparr>parts := parts (HOME g) @ [''Syncthing'']\<rparr>,
           (HOME g)\<lparr>parts := parts (HOME g) @ [''scratch'']\<rparr>]
          @ glob_star e ((HOME g)\<lparr>parts := parts (HOME g) @ [''code'']\<rparr>), {})"
proof -
  have p: "Path ''~/notes'' = \<lparr>root = [], parts = [''~'', ''notes'']\<rparr>"
    "Path ''~/Syncthing'' = \<lparr>root = [], parts = [''~'', ''Syncthing'']\<rparr>"
    "Path ''~/scratch'' = \<lparr>root = [], parts = [''~'', ''scratch'']\<rparr>"
    "Path (butlast ''~/code/*'') = \<lparr>root = [], parts = [''~'', ''code'']\<rparr>"
    by code_simp+
  have s: "\<not> startswith ''!'' ''~/notes''" "\<not> startswith ''!'' ''~/Syncthing''"
    "\<not> startswith ''!'' ''~/scratch''" "\<not> startswith ''!'' ''~/code/*''"
    "\<not> endswith ''*'' ''~/notes''" "\<not> endswith ''*'' ''~/Syncthing''"
    "\<not> endswith ''*'' ''~/scratch''" "endswith ''*'' ''~/code/*''"
    by code_simp+
  show ?thesis
    unfolding default_candidates_def
    by (simp only: collect.simps s if_True if_False p expanduser_tilde[OF assms] sum.case append_Nil append_Cons)
qed

lemma get_local_directories_default_ok:
  assumes "module_init e = Inr g" and "\<not> path_exists e (joinpath (HOME g) ''.muxer.rc'')"
  shows "\<exists>out. get_local_directories e g q = Inr out"
proof -
  let ?dirs = "[(HOME g)\<lparr>parts := parts (HOME g) @ [''notes'']\<rparr>,
           (HOME g)\<lparr>parts := parts (HOME g) @ [''Syncthing'']\<rparr>,
           (HOME g)\<lparr>parts := parts (HOME g) @ [''scratch'']\<rparr>]
          @ glob_star e ((HOME g)\<lparr>parts := parts (HOME g) @ [''code'']\<rparr>)"
  have "list_all (under_home g) ?dirs"
    using under_home_glob[OF under_home_child]
    by (simp add: under_home_child)
  then have "list_all (under_home g) (filter (valid e q {}) ?dirs)"
    by (auto simp: list_all_iff)
  then show ?thesis
    using get_local_directories_eq[OF load_candidates_default[OF assms] collect_default[OF assms(1)], of g q]
    by simp
qed

lemma main_ssh_error:
  assumes "get_ssh_hosts e g (args_query a) = Inl err"
  shows "main e proc g a s = (Inl err, s)"
proof -
  have q: "(if args_query a \<noteq> [] then args_query a else []) = args_query a"
    by simp
  show ?thesis
    unfolding main_def Let_def q using assms by simp
qed

text \<open>
  Claim C7, as the code has it, for a run whose import found the home directory. When
  the rule file does not exist, the candidates are the built-in list and directory
  discovery returns a result. When reading the SSH configuration raises
  \<open>FileNotFoundError\<close>, \<open>get_ssh_hosts\<close> raises it, and \<open>main\<close>, which has no handler, ends
  with that exception before anything else happens.
\<close>

theorem missing_backing_files:
  assumes "module_init e = Inr g"
  shows "(\<not> path_exists e (joinpath (HOME g) ''.muxer.rc'') \<longrightarrow>
            load_candidates e = Inr default_candidates \<and> (\<exists>out. get_local_directories e g q = Inr out))
       \<and> (read_text e (joinpath (joinpath (HOME g) ''.ssh'') ''config'') = Inl FileNotFoundError \<longrightarrow>
            get_ssh_hosts e g q = Inl FileNotFoundError \<and> main e proc g a s = (Inl FileNotFoundError, s))"
proof -
  have "get_ssh_hosts e g q' = Inl FileNotFoundError"
    if "read_text e (joinpath (joinpath (HOME g) ''.ssh'') ''config'') = Inl FileNotFoundError" for q'
    using that by (simp add: get_ssh_hosts_def)
  then show ?thesis
    using load_candidates_default[OF assms] get_local_directories_default_ok[OF assms]
      main_ssh_error[of e g a FileNotFoundError proc s]
    by blast
qed

text \<open>The theorem at the example machine with neither file.\<close>

theorem missing_backing_files_witness:
  "module_init (example_env None None) = Inr outside_tmux
   \<and> \<not> path_exists (example_env None None) (joinpath (HOME outside_tmux) ''.muxer.rc'')
   \<and> read_text (example_env None None) (joinpath (joinpath (HOME outside_tmux) ''.ssh'') ''config'') = Inl FileNotFoundError
   \<and> load_candidates (example_env None None) = Inr default_candidates
   \<and> (\<exists>out. get_local_directories (example_env None None) outside_tmux [] = Inr out)
   \<and> get_ssh_hosts (example_env None None) outside_tmux [] = Inl FileNotFoundError
   \<and> main (example_env None None) tmux_ls_proc outside_tmux \<lparr>args_query = [], args_window = False\<rparr> start =
        (Inl FileNotFoundError, start)"
proof -
  have 1: "module_init (example_env None None) = Inr outside_tmux" by code_simp
  have 2: "\<not> path_exists (example_env None None) (joinpath (HOME outside_tmux) ''.muxer.rc'')"
    by code_simp
  have 3: "read_text (example_env None None) (joinpath (joinpath (HOME outside_tmux) ''.ssh'') ''config'') = Inl FileNotFoundError"
    by code_simp
  from missing_backing_files[OF 1, of "[]" tmux_ls_proc "\<lparr>args_query = [], args_window = False\<rparr>" start] 1 2 3
  show ?thesis by blast
qed

text \<open>
  Claim C7 as stated fails in its second half: without the SSH configuration the run
  ends with the exception \<open>FileNotFoundError\<close> itself, uncaught, and the program has
  logged and printed nothing of its own; what the user sees is the traceback of the
  interpreter.
\<close>

theorem get_ssh_hosts_missing_config_counterexample:
  "read_text (example_env None None) (joinpath (joinpath (HOME outside_tmux) ''.ssh'') ''config'') = Inl FileNotFoundError
   \<and> get_ssh_hosts (example_env None None) outside_tmux [] = Inl FileNotFoundError
   \<and> main (example_env None None) tmux_ls_proc outside_tmux \<lparr>args_query = [], args_window = False\<rparr> start =
        (Inl FileNotFoundError, \<lparr>world = (), trace = []\<rparr>)"
  by code_simp

end
